theory Spec2Isabelle
  imports Complex_Main "HOL-Library.Char_ord" "HOL-Library.List_Lexorder"
    "HOL-Library.AList" "HOL-Library.Multiset"
begin

section \<open>Health Tracker: the Python library functions that project.py calls\<close>

text \<open>
  The program is \<^verbatim>\<open>project.py\<close>: a dataclass \<^verbatim>\<open>Entry\<close> and the functions
  \<^verbatim>\<open>add_entry\<close>, \<^verbatim>\<open>moving_average\<close>, \<^verbatim>\<open>summarize_week\<close> and \<^verbatim>\<open>export_csv\<close>.
  They lean on Python built-ins (\<^verbatim>\<open>str.strip\<close>, \<^verbatim>\<open>str.lower\<close>, \<^verbatim>\<open>float\<close>,
  \<^verbatim>\<open>sorted\<close>, \<^verbatim>\<open>sum\<close>, \<^verbatim>\<open>min\<close>, \<^verbatim>\<open>max\<close>, slices, \<^verbatim>\<open>dict\<close>) and on
  \<^verbatim>\<open>datetime.strptime\<close>. This section embeds those, as CPython behaves, for
  strings whose characters are the code points 0 to 255 (a \<^typ>\<open>char\<close> is one code point).

  Python exceptions are values of \<open>error\<close>; a computation that may raise has type
  \<open>error + 'a\<close>, with \<open>Inl\<close> the exception. The specification's \<^verbatim>\<open>InvalidInput\<close> is
  Python's \<^verbatim>\<open>ValueError\<close>, its \<^verbatim>\<open>IOFailure\<close> is \<^verbatim>\<open>OSError\<close>; \<open>CsvError\<close> is the
  \<^verbatim>\<open>csv.Error\<close> of the \<^verbatim>\<open>csv\<close> module.
\<close>

datatype error = ValueError | TypeError | OverflowError | ZeroDivisionError | OSError | CsvError

subsection \<open>Strings: \<^verbatim>\<open>str.strip\<close> and \<^verbatim>\<open>str.lower\<close>\<close>

definition in_range :: "char \<Rightarrow> char \<Rightarrow> char \<Rightarrow> bool" where
  "in_range lo hi c \<longleftrightarrow> lo \<le> c \<and> c \<le> hi"

text \<open>\<^verbatim>\<open>str.isspace\<close> on one code point below 256: tab, LF, VT, FF, CR, the four
  separators FS, GS, RS, US, the blank, NEL (0x85) and the no-break space (0xA0).\<close>

definition is_space :: "char \<Rightarrow> bool" where
  "is_space c \<longleftrightarrow> in_range (CHR 0x09) (CHR 0x0D) c \<or> in_range (CHR 0x1C) (CHR 0x20) c
     \<or> c = CHR 0x85 \<or> c = CHR 0xA0"

definition strip :: "string \<Rightarrow> string" where
  "strip s = rev (dropWhile is_space (rev (dropWhile is_space s)))"

text \<open>\<^verbatim>\<open>str.lower\<close> below 256: the letters A to Z and the Latin-1 capitals 0xC0 to 0xDE
  (the multiplication sign 0xD7 apart) move up by 32.\<close>

definition lower_char :: "char \<Rightarrow> char" where
  "lower_char c =
     (if in_range (CHR ''A'') (CHR ''Z'') c
         \<or> (in_range (CHR 0xC0) (CHR 0xDE) c \<and> c \<noteq> CHR 0xD7)
      then char_of (of_char c + (32::nat)) else c)"

definition lower :: "string \<Rightarrow> string" where
  "lower s = map lower_char s"

subsection \<open>Decimal digits and \<^verbatim>\<open>int\<close> of a digit string\<close>

definition is_digit :: "char \<Rightarrow> bool" where
  "is_digit c \<longleftrightarrow> in_range (CHR ''0'') (CHR ''9'') c"

definition digit_val :: "char \<Rightarrow> nat" where
  "digit_val c = of_char c - 48"

definition digits_val :: "string \<Rightarrow> nat" where
  "digits_val s = foldl (\<lambda>n c. 10 * n + digit_val c) 0 s"

text \<open>\<^verbatim>\<open>int(s)\<close> as \<^verbatim>\<open>_strptime\<close> uses it, on a regex group that holds digits, after
  a blank in the case of \<^verbatim>\<open>%d\<close>: \<^verbatim>\<open>int\<close> strips white space first.\<close>

definition py_int :: "string \<Rightarrow> int" where
  "py_int s = int (digits_val (strip s))"

subsection \<open>\<^verbatim>\<open>datetime.strptime(s, "%Y-%m-%d")\<close>\<close>

text \<open>
  \<^verbatim>\<open>_strptime\<close> compiles the format to the regular expression
  \<^verbatim>\<open>(?P<Y>\d\d\d\d)-(?P<m>1[0-2]|0[1-9]|[1-9])-(?P<d>3[0-1]|[1-2]\d|0[1-9]|[1-9]| [1-9])\<close>,
  calls \<^verbatim>\<open>match\<close> (anchored at the start only) and raises \<^verbatim>\<open>ValueError\<close> when there
  is no match or when the match does not reach the end of the string. A matcher maps
  a string to the list of its matches, as pairs of the matched text and the rest,
  in the order in which a backtracking engine tries them.
\<close>

type_synonym matcher = "string \<Rightarrow> (string \<times> string) list"

fun cls :: "(char \<Rightarrow> bool) \<Rightarrow> matcher" where
  "cls P [] = []"
| "cls P (c # r) = (if P c then [([c], r)] else [])"

definition seq :: "matcher \<Rightarrow> matcher \<Rightarrow> matcher" where
  "seq p q s = concat (map (\<lambda>(a, r). map (\<lambda>(b, r'). (a @ b, r')) (q r)) (p s))"

definition alt :: "matcher \<Rightarrow> matcher \<Rightarrow> matcher" where
  "alt p q s = p s @ q s"

definition lit :: "char \<Rightarrow> matcher" where
  "lit c = cls (\<lambda>x. x = c)"

definition re_Y :: matcher where
  "re_Y = seq (cls is_digit) (seq (cls is_digit) (seq (cls is_digit) (cls is_digit)))"

definition re_m :: matcher where
  "re_m = alt (seq (lit (CHR ''1'')) (cls (in_range (CHR ''0'') (CHR ''2''))))
         (alt (seq (lit (CHR ''0'')) (cls (in_range (CHR ''1'') (CHR ''9''))))
              (cls (in_range (CHR ''1'') (CHR ''9''))))"

definition re_d :: matcher where
  "re_d = alt (seq (lit (CHR ''3'')) (cls (in_range (CHR ''0'') (CHR ''1''))))
         (alt (seq (cls (in_range (CHR ''1'') (CHR ''2''))) (cls is_digit))
         (alt (seq (lit (CHR ''0'')) (cls (in_range (CHR ''1'') (CHR ''9''))))
         (alt (cls (in_range (CHR ''1'') (CHR ''9'')))
              (seq (lit (CHR '' '')) (cls (in_range (CHR ''1'') (CHR ''9'')))))))"

text \<open>The first match of the whole expression: the three groups and the unconverted rest.\<close>

definition format_regex_match :: "string \<Rightarrow> ((string \<times> string \<times> string) \<times> string) option" where
  "format_regex_match s =
     (case concat (map (\<lambda>(y, r1). concat (map (\<lambda>(h1, r2). concat (map (\<lambda>(m, r3).
             concat (map (\<lambda>(h2, r4). map (\<lambda>(d, r5). ((y, m, d), r5)) (re_d r4))
               (lit (CHR ''-'') r3))) (re_m r2))) (lit (CHR ''-'') r1))) (re_Y s)) of
        [] \<Rightarrow> None
      | x # _ \<Rightarrow> Some x)"

text \<open>The calendar of \<^verbatim>\<open>datetime.py\<close>: \<^verbatim>\<open>_is_leap\<close>, \<^verbatim>\<open>_days_in_month\<close>,
  \<^verbatim>\<open>_days_before_year\<close>, \<^verbatim>\<open>_days_before_month\<close>, \<^verbatim>\<open>_ymd2ord\<close>.\<close>

definition is_leap :: "int \<Rightarrow> bool" where
  "is_leap y \<longleftrightarrow> y mod 4 = 0 \<and> (y mod 100 \<noteq> 0 \<or> y mod 400 = 0)"

definition DAYS_IN_MONTH :: "int list" where
  "DAYS_IN_MONTH = [-1, 31, 28, 31, 30, 31, 30, 31, 31, 30, 31, 30, 31]"

definition DAYS_BEFORE_MONTH :: "int list" where
  "DAYS_BEFORE_MONTH = [-1, 0, 31, 59, 90, 120, 151, 181, 212, 243, 273, 304, 334]"

definition days_in_month :: "int \<Rightarrow> int \<Rightarrow> int" where
  "days_in_month y m = (if m = 2 \<and> is_leap y then 29 else DAYS_IN_MONTH ! nat m)"

definition days_before_year :: "int \<Rightarrow> int" where
  "days_before_year year = (let y = year - 1 in y * 365 + y div 4 - y div 100 + y div 400)"

definition days_before_month :: "int \<Rightarrow> int \<Rightarrow> int" where
  "days_before_month y m = DAYS_BEFORE_MONTH ! nat m + (if m > 2 \<and> is_leap y then 1 else 0)"

definition ymd2ord :: "int \<Rightarrow> int \<Rightarrow> int \<Rightarrow> int" where
  "ymd2ord y m d = days_before_year y + days_before_month y m + d"

text \<open>
  Every \<^verbatim>\<open>datetime\<close> of the program comes from this format, so its time of day is
  midnight and it is determined by its day. A \<open>datetime\<close> is represented by its
  proleptic Gregorian ordinal (\<^verbatim>\<open>toordinal\<close>: 1 is 0001-01-01, 3652059 is 9999-12-31);
  comparison of two \<^verbatim>\<open>datetime\<close>s is comparison of their ordinals, and subtracting a
  \<^verbatim>\<open>timedelta\<close> of whole days subtracts from the ordinal, with \<^verbatim>\<open>OverflowError\<close>
  when the result leaves the range of the type.
\<close>

datatype datetime = Datetime (toordinal: int)

definition MAXORDINAL :: int where
  "MAXORDINAL = 3652059"

definition new_datetime :: "int \<Rightarrow> int \<Rightarrow> int \<Rightarrow> error + datetime" where
  "new_datetime y m d =
     (if \<not> (1 \<le> y \<and> y \<le> 9999) then Inl ValueError
      else if \<not> (1 \<le> m \<and> m \<le> 12) then Inl ValueError
      else if \<not> (1 \<le> d \<and> d \<le> days_in_month y m) then Inl ValueError
      else Inr (Datetime (ymd2ord y m d)))"

definition strptime :: "string \<Rightarrow> error + datetime" where
  "strptime data_string =
     (case format_regex_match data_string of
        None \<Rightarrow> Inl ValueError
      | Some ((y, m, d), rest) \<Rightarrow>
          if rest \<noteq> [] then Inl ValueError
          else new_datetime (py_int y) (py_int m) (py_int d))"

definition dt_le :: "datetime \<Rightarrow> datetime \<Rightarrow> bool" where
  "dt_le a b \<longleftrightarrow> toordinal a \<le> toordinal b"

definition dt_sub_days :: "datetime \<Rightarrow> int \<Rightarrow> error + datetime" where
  "dt_sub_days a days =
     (let n = toordinal a - days
      in if 0 < n \<and> n \<le> MAXORDINAL then Inr (Datetime n) else Inl OverflowError)"

subsection \<open>Floats and \<^verbatim>\<open>float(x)\<close>\<close>

text \<open>
  A Python \<^verbatim>\<open>float\<close> is modelled as a rational number, or one of the infinities, or
  NaN. Arithmetic on finite values is exact: the rounding of IEEE doubles, and their
  overflow to an infinity, are not part of the model.
\<close>

datatype pyfloat = Fin rat | PInf | NInf | NaN

fun fadd :: "pyfloat \<Rightarrow> pyfloat \<Rightarrow> pyfloat" where
  "fadd (Fin a) (Fin b) = Fin (a + b)"
| "fadd NaN _ = NaN"
| "fadd _ NaN = NaN"
| "fadd PInf NInf = NaN"
| "fadd NInf PInf = NaN"
| "fadd PInf _ = PInf"
| "fadd _ PInf = PInf"
| "fadd NInf _ = NInf"
| "fadd _ NInf = NInf"

text \<open>\<^verbatim>\<open>a < b\<close> on floats: every comparison with NaN is false.\<close>

fun flt :: "pyfloat \<Rightarrow> pyfloat \<Rightarrow> bool" where
  "flt (Fin a) (Fin b) = (a < b)"
| "flt NaN _ = False"
| "flt _ NaN = False"
| "flt _ NInf = False"
| "flt NInf _ = True"
| "flt PInf _ = False"
| "flt _ PInf = True"

text \<open>\<^verbatim>\<open>x / n\<close> for a float \<open>x\<close> and an \<^verbatim>\<open>int\<close> \<open>n\<close>.\<close>

definition py_truediv :: "pyfloat \<Rightarrow> int \<Rightarrow> error + pyfloat" where
  "py_truediv x n =
     (if n = 0 then Inl ZeroDivisionError
      else Inr (case x of
                  Fin a \<Rightarrow> Fin (a / of_int n)
                | PInf \<Rightarrow> if 0 < n then PInf else NInf
                | NInf \<Rightarrow> if 0 < n then NInf else PInf
                | NaN \<Rightarrow> NaN))"

text \<open>\<^verbatim>\<open>sum(xs)\<close> adds from the left, starting from 0.\<close>

definition py_sum :: "pyfloat list \<Rightarrow> pyfloat" where
  "py_sum xs = foldl fadd (Fin 0) xs"

text \<open>\<^verbatim>\<open>min(xs)\<close> and \<^verbatim>\<open>max(xs)\<close> keep the first element until a later one is
  smaller (greater); on an empty list they raise \<^verbatim>\<open>ValueError\<close>.\<close>

definition py_min :: "pyfloat list \<Rightarrow> error + pyfloat" where
  "py_min xs = (case xs of [] \<Rightarrow> Inl ValueError
                | x # r \<Rightarrow> Inr (foldl (\<lambda>m item. if flt item m then item else m) x r))"

definition py_max :: "pyfloat list \<Rightarrow> error + pyfloat" where
  "py_max xs = (case xs of [] \<Rightarrow> Inl ValueError
                | x # r \<Rightarrow> Inr (foldl (\<lambda>m item. if flt m item then item else m) x r))"

text \<open>
  \<^verbatim>\<open>float(s)\<close> on a string. CPython first maps every code point above 127 to a blank
  when it is white space and to \<^verbatim>\<open>?\<close> otherwise, strips the white space of C
  (\<^verbatim>\<open>Py_ISSPACE\<close>), checks that each underscore stands between two digits and removes
  the underscores, and then reads a sign, and either a decimal numeral with an optional
  exponent or one of \<^verbatim>\<open>inf\<close>, \<^verbatim>\<open>infinity\<close>, \<^verbatim>\<open>nan\<close> in any case. Anything left
  over is a \<^verbatim>\<open>ValueError\<close>.
\<close>

definition to_ascii :: "char \<Rightarrow> char" where
  "to_ascii c = (if (of_char c :: nat) < 128 then c
                 else if is_space c then CHR '' '' else CHR ''?'')"

definition c_isspace :: "char \<Rightarrow> bool" where
  "c_isspace c \<longleftrightarrow> in_range (CHR 0x09) (CHR 0x0D) c \<or> c = CHR '' ''"

definition float_strip :: "string \<Rightarrow> string" where
  "float_strip s = rev (dropWhile c_isspace (rev (dropWhile c_isspace s)))"

fun underscores_ok :: "char \<Rightarrow> string \<Rightarrow> bool" where
  "underscores_ok prev [] = (prev \<noteq> CHR ''_'')"
| "underscores_ok prev (c # r) =
     ((if c = CHR ''_'' then is_digit prev
       else if prev = CHR ''_'' then is_digit c else True)
      \<and> underscores_ok c r)"

definition split_sign :: "string \<Rightarrow> bool \<times> string" where
  "split_sign s = (case s of
                     [] \<Rightarrow> (False, [])
                   | c # r \<Rightarrow> if c = CHR ''-'' then (True, r)
                              else if c = CHR ''+'' then (False, r) else (False, s))"

text \<open>The exponent part: absent, or \<^verbatim>\<open>e\<close> or \<^verbatim>\<open>E\<close>, a sign, and one digit or more.\<close>

definition parse_exponent :: "string \<Rightarrow> int option" where
  "parse_exponent s = (case s of
       [] \<Rightarrow> Some 0
     | c # r \<Rightarrow>
         if c = CHR ''e'' \<or> c = CHR ''E'' then
           (let (neg, ds) = split_sign r
            in if ds \<noteq> [] \<and> list_all is_digit ds
               then Some (if neg then - int (digits_val ds) else int (digits_val ds))
               else None)
         else None)"

definition parse_decimal :: "string \<Rightarrow> rat option" where
  "parse_decimal s =
     (let ip = takeWhile is_digit s;
          r1 = dropWhile is_digit s;
          (fp, r2) = (case r1 of
                        [] \<Rightarrow> ([], [])
                      | c # r \<Rightarrow> if c = CHR ''.''
                                 then (takeWhile is_digit r, dropWhile is_digit r)
                                 else ([], r1))
      in if ip = [] \<and> fp = [] then None
         else case parse_exponent r2 of
                None \<Rightarrow> None
              | Some e \<Rightarrow> Some (of_nat (digits_val (ip @ fp)) * power_int 10 (e - int (length fp))))"

definition float_of_str :: "string \<Rightarrow> error + pyfloat" where
  "float_of_str u =
     (let s = float_strip (map to_ascii u)
      in if \<not> underscores_ok (CHR 0x00) s then Inl ValueError
         else let (neg, body) = split_sign (filter (\<lambda>c. c \<noteq> CHR ''_'') s)
              in case parse_decimal body of
                   Some q \<Rightarrow> Inr (Fin (if neg then - q else q))
                 | None \<Rightarrow>
                     let w = lower body
                     in if w = ''inf'' \<or> w = ''infinity'' then Inr (if neg then NInf else PInf)
                        else if w = ''nan'' then Inr NaN
                        else Inl ValueError)"

text \<open>
  The argument \<^verbatim>\<open>value\<close> of \<^verbatim>\<open>add_entry\<close> is annotated \<^verbatim>\<open>float\<close>, but Python does
  not enforce it and the function guards \<^verbatim>\<open>float(value)\<close> with \<^verbatim>\<open>try\<close>: the
  argument is any object. \<open>PyNone\<close> stands for the objects \<^verbatim>\<open>float\<close> rejects with
  \<^verbatim>\<open>TypeError\<close>. An \<^verbatim>\<open>int\<close> beyond the range of a double makes \<^verbatim>\<open>float\<close> raise
  \<^verbatim>\<open>OverflowError\<close>; the floats of the model have no bound, and the model converts it.
\<close>

datatype pyobj = PyFloat pyfloat | PyInt int | PyStr string | PyNone

definition py_float :: "pyobj \<Rightarrow> error + pyfloat" where
  "py_float v = (case v of
                   PyFloat x \<Rightarrow> Inr x
                 | PyInt n \<Rightarrow> Inr (Fin (of_int n))
                 | PyStr s \<Rightarrow> float_of_str s
                 | PyNone \<Rightarrow> Inl TypeError)"

section \<open>The program\<close>

subsection \<open>\<^verbatim>\<open>Entry\<close> and \<^verbatim>\<open>add_entry\<close>\<close>

record entry =
  date :: string
  metric :: string
  val :: pyfloat

text \<open>
  \<^verbatim>\<open>add_entry\<close> mutates the caller's list: the model returns the outcome (the
  exception raised or the entry returned) together with the list as the call leaves it.
  Both \<^verbatim>\<open>except Exception\<close> clauses re-raise as \<^verbatim>\<open>ValueError\<close>.
\<close>

definition add_entry :: "entry list \<Rightarrow> string \<Rightarrow> string \<Rightarrow> pyobj \<Rightarrow> (error + entry) \<times> entry list" where
  "add_entry entries date_arg metric_arg value_arg =
     (case strptime date_arg of
        Inl exc \<Rightarrow> (Inl ValueError, entries)
      | Inr _ \<Rightarrow>
          (case py_float value_arg of
             Inl exc \<Rightarrow> (Inl ValueError, entries)
           | Inr value_f \<Rightarrow>
               let entry = \<lparr>date = date_arg, metric = lower (strip metric_arg), val = value_f\<rparr>
               in (Inr entry, entries @ [entry])))"

subsection \<open>\<^verbatim>\<open>moving_average\<close>\<close>

text \<open>The slice \<^verbatim>\<open>xs[a:b]\<close>: a negative bound counts from the end, and both bounds are
  clamped to the list.\<close>

definition slice_bound :: "int \<Rightarrow> int \<Rightarrow> nat" where
  "slice_bound n a = nat (if a < 0 then max (a + n) 0 else min a n)"

definition py_slice :: "'a list \<Rightarrow> int \<Rightarrow> int \<Rightarrow> 'a list" where
  "py_slice xs a b =
     (let lo = slice_bound (int (length xs)) a; hi = slice_bound (int (length xs)) b
      in take (hi - lo) (drop lo xs))"

text \<open>
  The result is a \<^verbatim>\<open>dict\<close>: an association list in insertion order, where
  \<^verbatim>\<open>results[k] = v\<close> is \<^const>\<open>AList.update\<close> (a key that is present keeps its place and
  takes the new value). The loop \<^verbatim>\<open>for i in range(len(numbers))\<close> runs over the list
  of indices.
\<close>

type_synonym results = "(string \<times> pyfloat) list"

fun ma_loop :: "int \<Rightarrow> pyfloat list \<Rightarrow> string list \<Rightarrow> nat list \<Rightarrow> results \<Rightarrow> error + results" where
  "ma_loop window numbers dates [] results = Inr results"
| "ma_loop window numbers dates (i # rest) results =
     (if int i + 1 \<ge> window then
        (let window_vals = py_slice numbers (int i - window + 1) (int i + 1)
         in case py_truediv (py_sum window_vals) (int (length window_vals)) of
              Inl exc \<Rightarrow> Inl exc
            | Inr avg \<Rightarrow> ma_loop window numbers dates rest (AList.update (dates ! i) avg results))
      else ma_loop window numbers dates rest results)"

text \<open>\<^verbatim>\<open>sorted(..., key=lambda e: e.date)\<close> is a stable sort on the date strings, which
  Python compares code point by code point; \<^const>\<open>sort_key\<close> is a stable insertion sort
  and the order on \<^typ>\<open>string\<close> is the lexicographic one.\<close>

definition moving_average :: "entry list \<Rightarrow> string \<Rightarrow> int \<Rightarrow> error + results" where
  "moving_average entries metric_arg window =
     (if window < 1 then Inl ValueError
      else
        let metric' = lower (strip metric_arg);
            vals = sort_key date (filter (\<lambda>e. metric e = metric') entries)
        in if vals = [] then Inr []
           else
             let numbers = map val vals;
                 dates = map date vals
             in ma_loop window numbers dates [0..<length numbers] [])"

subsection \<open>\<^verbatim>\<open>summarize_week\<close>\<close>

text \<open>The generator \<^verbatim>\<open>strptime(e.date, DATE_FMT) for e in entries\<close> and \<^verbatim>\<open>max\<close> of it:
  the first date that does not parse raises.\<close>

fun parse_dates :: "entry list \<Rightarrow> error + datetime list" where
  "parse_dates [] = Inr []"
| "parse_dates (e # es) =
     (case strptime (date e) of
        Inl exc \<Rightarrow> Inl exc
      | Inr d \<Rightarrow> (case parse_dates es of
                    Inl exc \<Rightarrow> Inl exc
                  | Inr ds \<Rightarrow> Inr (d # ds)))"

definition max_datetime :: "datetime list \<Rightarrow> error + datetime" where
  "max_datetime ds = (case ds of
       [] \<Rightarrow> Inl ValueError
     | d # r \<Rightarrow> Inr (foldl (\<lambda>m item. if dt_le item m then m else item) d r))"

text \<open>The comprehension of line 88. \<^verbatim>\<open>and\<close> short-circuits: the date of an entry is
  parsed only when its metric matches, and a date that does not parse raises.\<close>

fun select_values :: "string \<Rightarrow> datetime \<Rightarrow> datetime \<Rightarrow> entry list \<Rightarrow> error + pyfloat list" where
  "select_values m start_dt end_dt [] = Inr []"
| "select_values m start_dt end_dt (e # es) =
     (if metric e = m then
        (case strptime (date e) of
           Inl exc \<Rightarrow> Inl exc
         | Inr d \<Rightarrow>
             (case select_values m start_dt end_dt es of
                Inl exc \<Rightarrow> Inl exc
              | Inr vs \<Rightarrow> Inr (if dt_le start_dt d \<and> dt_le d end_dt then val e # vs else vs)))
      else select_values m start_dt end_dt es)"

text \<open>The returned \<^verbatim>\<open>dict\<close>, keys in insertion order.\<close>

datatype pyval = VInt int | VFloat pyfloat | VList "pyfloat list"

type_synonym summary = "(string \<times> pyval) list"

definition empty_summary :: summary where
  "empty_summary = [(''count'', VInt 0), (''values'', VList [])]"

definition summarize_week :: "entry list \<Rightarrow> string \<Rightarrow> string option \<Rightarrow> error + summary" where
  "summarize_week entries metric_arg end_date =
     (let metric' = lower (strip metric_arg)
      in if entries = [] then Inr empty_summary
         else
           case (case end_date of
                   None \<Rightarrow> (case parse_dates entries of
                               Inl exc \<Rightarrow> Inl exc
                             | Inr ds \<Rightarrow> max_datetime ds)
                 | Some s \<Rightarrow> strptime s) of
             Inl exc \<Rightarrow> Inl exc
           | Inr end_dt \<Rightarrow>
               (case dt_sub_days end_dt 6 of
                  Inl exc \<Rightarrow> Inl exc
                | Inr start_dt \<Rightarrow>
                    (case select_values metric' start_dt end_dt entries of
                       Inl exc \<Rightarrow> Inl exc
                     | Inr selected \<Rightarrow>
                         if selected = [] then Inr empty_summary
                         else
                           let count = int (length selected)
                           in case py_truediv (py_sum selected) count of
                                Inl exc \<Rightarrow> Inl exc
                              | Inr mean \<Rightarrow>
                                  (case py_min selected of
                                     Inl exc \<Rightarrow> Inl exc
                                   | Inr mn \<Rightarrow>
                                       (case py_max selected of
                                          Inl exc \<Rightarrow> Inl exc
                                        | Inr mx \<Rightarrow>
                                            Inr [(''count'', VInt count), (''min'', VFloat mn),
                                                 (''max'', VFloat mx), (''mean'', VFloat mean),
                                                 (''values'', VList selected)])))))"

subsection \<open>\<^verbatim>\<open>export_csv\<close> and the writer of the \<^verbatim>\<open>csv\<close> module\<close>

text \<open>
  \<^verbatim>\<open>csv.DictWriter\<close> is used with the default dialect: delimiter comma, quote character
  \<^verbatim>\<open>"\<close>, \<^verbatim>\<open>doublequote\<close>, no escape character, line terminator CR LF and
  \<^verbatim>\<open>QUOTE_MINIMAL\<close>. A field is quoted when it holds the delimiter, the quote character
  or a character of the line terminator, and a quote character inside it is doubled
  (\<^verbatim>\<open>join_append_data\<close> of \<^verbatim>\<open>_csv.c\<close>); a record that is one empty field is written as
  two quote characters.
\<close>

definition LF :: char where "LF = CHR 0x0A"
definition CR :: char where "CR = CHR 0x0D"
definition QUOTE :: char where "QUOTE = CHR 0x22"
definition COMMA :: char where "COMMA = CHR 0x2C"

definition needs_quote :: "char \<Rightarrow> bool" where
  "needs_quote c \<longleftrightarrow> c = COMMA \<or> c = QUOTE \<or> c = CR \<or> c = LF"

fun join_append_data :: "string \<Rightarrow> string" where
  "join_append_data [] = []"
| "join_append_data (c # s) = (if c = QUOTE then [QUOTE, QUOTE] else [c]) @ join_append_data s"

definition join_append :: "string \<Rightarrow> string" where
  "join_append s = (if list_ex needs_quote s then QUOTE # join_append_data s @ [QUOTE] else s)"

fun join_fields :: "string list \<Rightarrow> string" where
  "join_fields [] = []"
| "join_fields [f] = join_append f"
| "join_fields (f # g # fs) = join_append f @ COMMA # join_fields (g # fs)"

definition csv_writerow :: "string list \<Rightarrow> string" where
  "csv_writerow row = (if row = [[]] then [QUOTE, QUOTE] else join_fields row) @ [CR, LF]"

text \<open>
  A field that is not a string is written as \<^verbatim>\<open>str(field)\<close>. How Python prints a float
  (the shortest decimal that reads back as the same double) is not expressible on the
  rationals of this model: \<open>float_str\<close> is a parameter, and everything below holds for
  every choice of it.
\<close>

datatype cell = CStr string | CFloat pyfloat

definition cell_text :: "(pyfloat \<Rightarrow> string) \<Rightarrow> cell \<Rightarrow> string" where
  "cell_text float_str c = (case c of CStr s \<Rightarrow> s | CFloat x \<Rightarrow> float_str x)"

definition fieldnames :: "string list" where
  "fieldnames = [''date'', ''metric'', ''value'']"

text \<open>\<^verbatim>\<open>DictWriter._dict_to_list\<close>: the values of the row in the order of the field names
  (a missing key gives \<^verbatim>\<open>restval\<close>, the empty string).\<close>

definition dict_to_list :: "(string \<times> cell) list \<Rightarrow> cell list" where
  "dict_to_list rowdict = map (\<lambda>key. case map_of rowdict key of None \<Rightarrow> CStr [] | Some v \<Rightarrow> v) fieldnames"

definition dictwriter_writerow :: "(pyfloat \<Rightarrow> string) \<Rightarrow> (string \<times> cell) list \<Rightarrow> string" where
  "dictwriter_writerow float_str rowdict = csv_writerow (map (cell_text float_str) (dict_to_list rowdict))"

definition writeheader :: string where
  "writeheader = csv_writerow fieldnames"

text \<open>
  The file system maps a file name to the text of the file; \<open>writable\<close> says whether
  \<^verbatim>\<open>open(filename, "w", newline="")\<close> succeeds. With \<^verbatim>\<open>newline=""\<close> no character is
  translated on the way to the file. The loop \<^verbatim>\<open>for e in entries\<close> appends one row per
  entry to what the handle has written so far.
\<close>

record filesystem =
  contents :: "string \<Rightarrow> string option"
  writable :: "string \<Rightarrow> bool"

fun write_entries :: "(pyfloat \<Rightarrow> string) \<Rightarrow> string \<Rightarrow> entry list \<Rightarrow> string" where
  "write_entries float_str fh [] = fh"
| "write_entries float_str fh (e # es) =
     write_entries float_str
       (fh @ dictwriter_writerow float_str
               [(''date'', CStr (date e)), (''metric'', CStr (metric e)), (''value'', CFloat (val e))])
       es"

definition export_csv :: "(pyfloat \<Rightarrow> string) \<Rightarrow> entry list \<Rightarrow> string \<Rightarrow> filesystem \<Rightarrow> error + filesystem" where
  "export_csv float_str entries filename fs =
     (if \<not> writable fs filename then Inl OSError
      else Inr (fs\<lparr>contents := (contents fs)(filename := Some (write_entries float_str writeheader entries))\<rparr>))"

section \<open>Notions used to state the properties\<close>

text \<open>A date string is valid for the program when \<^const>\<open>strptime\<close> accepts it;
  \<open>date_ord\<close> is the ordinal of the day an entry's date denotes (0 when it denotes none).\<close>

definition valid_date :: "string \<Rightarrow> bool" where
  "valid_date s \<longleftrightarrow> \<not> isl (strptime s)"

definition date_ord :: "entry \<Rightarrow> int" where
  "date_ord e = (case strptime (date e) of Inl _ \<Rightarrow> 0 | Inr d \<Rightarrow> toordinal d)"

text \<open>The arithmetic mean of a list of floats: the sum divided by the number of
  elements (an infinite or undefined sum stays what it is).\<close>

definition arith_mean :: "pyfloat list \<Rightarrow> pyfloat" where
  "arith_mean xs = (case py_sum xs of Fin s \<Rightarrow> Fin (s / of_nat (length xs)) | v \<Rightarrow> v)"

text \<open>The window of \<open>w\<close> elements of a list that ends at index \<open>i\<close>: the elements at the
  indices \<open>i + 1 - w\<close> to \<open>i\<close>.\<close>

definition window_at :: "int \<Rightarrow> 'a list \<Rightarrow> nat \<Rightarrow> 'a list" where
  "window_at w xs i = map (\<lambda>j. xs ! j) [Suc i - nat w..<Suc i]"

text \<open>The format \<^verbatim>\<open>YYYY-MM-DD\<close> of the specification, read strictly: four digits, a
  hyphen, two digits, a hyphen, two digits, naming a day of the calendar.\<close>

definition spec_iso_date :: "string \<Rightarrow> bool" where
  "spec_iso_date s \<longleftrightarrow>
     (case s of
        [y1, y2, y3, y4, h1, m1, m2, h2, d1, d2] \<Rightarrow>
          h1 = CHR ''-'' \<and> h2 = CHR ''-'' \<and> list_all is_digit [y1, y2, y3, y4, m1, m2, d1, d2] \<and>
          (let y = int (digits_val [y1, y2, y3, y4]);
               m = int (digits_val [m1, m2]);
               d = int (digits_val [d1, d2])
           in 1 \<le> y \<and> 1 \<le> m \<and> m \<le> 12 \<and> 1 \<le> d \<and> d \<le> days_in_month y m)
      | _ \<Rightarrow> False)"

text \<open>
  Re-reading the exported file is taken to mean \<^verbatim>\<open>csv.reader\<close> with the same dialect
  over the file opened with \<^verbatim>\<open>newline=""\<close>. Iterating the file gives its lines, each
  ending after LF, after CR LF or after a CR that no LF follows (or at the end of the
  text); the reader feeds the characters of a line to \<^verbatim>\<open>parse_process_char\<close> and then
  the end-of-line mark, and a record is complete when the state is \<^verbatim>\<open>START_RECORD\<close>
  again. The states for an escape character cannot occur (the dialect has none), and
  the adjustable limit on the size of one field (\<^verbatim>\<open>csv.field_size_limit\<close>) is not
  modelled.
\<close>

datatype rstate = START_RECORD | START_FIELD | IN_FIELD | IN_QUOTED_FIELD | QUOTE_IN_QUOTED_FIELD | EAT_CRNL

record parser =
  pstate :: rstate
  pfield :: string
  pfields :: "string list"

definition parse_reset :: parser where
  "parse_reset = \<lparr>pstate = START_RECORD, pfield = [], pfields = []\<rparr>"

definition parse_save_field :: "parser \<Rightarrow> parser" where
  "parse_save_field p = p\<lparr>pfields := pfields p @ [pfield p], pfield := []\<rparr>"

definition parse_add_char :: "parser \<Rightarrow> char \<Rightarrow> parser" where
  "parse_add_char p c = p\<lparr>pfield := pfield p @ [c]\<rparr>"

definition is_newline :: "char \<Rightarrow> bool" where
  "is_newline c \<longleftrightarrow> c = LF \<or> c = CR"

definition start_field :: "parser \<Rightarrow> char \<Rightarrow> parser" where
  "start_field p c =
     (if is_newline c then (parse_save_field p)\<lparr>pstate := EAT_CRNL\<rparr>
      else if c = QUOTE then p\<lparr>pstate := IN_QUOTED_FIELD\<rparr>
      else if c = COMMA then (parse_save_field p)\<lparr>pstate := START_FIELD\<rparr>
      else (parse_add_char p c)\<lparr>pstate := IN_FIELD\<rparr>)"

definition parse_process_char :: "parser \<Rightarrow> char \<Rightarrow> error + parser" where
  "parse_process_char p c = (case pstate p of
       START_RECORD \<Rightarrow>
         if is_newline c then Inr (p\<lparr>pstate := EAT_CRNL\<rparr>) else Inr (start_field p c)
     | START_FIELD \<Rightarrow> Inr (start_field p c)
     | IN_FIELD \<Rightarrow>
         if is_newline c then Inr ((parse_save_field p)\<lparr>pstate := EAT_CRNL\<rparr>)
         else if c = COMMA then Inr ((parse_save_field p)\<lparr>pstate := START_FIELD\<rparr>)
         else Inr (parse_add_char p c)
     | IN_QUOTED_FIELD \<Rightarrow>
         if c = QUOTE then Inr (p\<lparr>pstate := QUOTE_IN_QUOTED_FIELD\<rparr>)
         else Inr (parse_add_char p c)
     | QUOTE_IN_QUOTED_FIELD \<Rightarrow>
         if c = QUOTE then Inr ((parse_add_char p c)\<lparr>pstate := IN_QUOTED_FIELD\<rparr>)
         else if c = COMMA then Inr ((parse_save_field p)\<lparr>pstate := START_FIELD\<rparr>)
         else if is_newline c then Inr ((parse_save_field p)\<lparr>pstate := EAT_CRNL\<rparr>)
         else Inr ((parse_add_char p c)\<lparr>pstate := IN_FIELD\<rparr>)
     | EAT_CRNL \<Rightarrow> if is_newline c then Inr p else Inl CsvError)"

definition parse_process_eol :: "parser \<Rightarrow> parser" where
  "parse_process_eol p = (case pstate p of
       START_RECORD \<Rightarrow> p
     | START_FIELD \<Rightarrow> (parse_save_field p)\<lparr>pstate := START_RECORD\<rparr>
     | IN_FIELD \<Rightarrow> (parse_save_field p)\<lparr>pstate := START_RECORD\<rparr>
     | IN_QUOTED_FIELD \<Rightarrow> p
     | QUOTE_IN_QUOTED_FIELD \<Rightarrow> (parse_save_field p)\<lparr>pstate := START_RECORD\<rparr>
     | EAT_CRNL \<Rightarrow> p\<lparr>pstate := START_RECORD\<rparr>)"

definition line_ends_here :: "char \<Rightarrow> string \<Rightarrow> bool" where
  "line_ends_here c cs \<longleftrightarrow>
     c = LF \<or> (c = CR \<and> (case cs of [] \<Rightarrow> True | d # _ \<Rightarrow> d \<noteq> LF)) \<or> cs = []"

fun read_chars :: "parser \<Rightarrow> string list list \<Rightarrow> string \<Rightarrow> error + string list list" where
  "read_chars p rows [] =
     Inr (if pfield p \<noteq> [] \<or> pstate p = IN_QUOTED_FIELD
          then rows @ [pfields (parse_save_field p)] else rows)"
| "read_chars p rows (c # cs) =
     (case parse_process_char p c of
        Inl exc \<Rightarrow> Inl exc
      | Inr p' \<Rightarrow>
          if line_ends_here c cs then
            (let p'' = parse_process_eol p'
             in if pstate p'' = START_RECORD
                then read_chars parse_reset (rows @ [pfields p'']) cs
                else read_chars p'' rows cs)
          else read_chars p' rows cs)"

definition csv_read :: "string \<Rightarrow> error + string list list" where
  "csv_read text = read_chars parse_reset [] text"

text \<open>After the text of one field the parser holds the field and waits for a delimiter
  or a line end.\<close>

definition field_read :: "parser \<Rightarrow> string list \<Rightarrow> string \<Rightarrow> parser \<Rightarrow> bool" where
  "field_read p fs s q \<longleftrightarrow> pfield q = s \<and> pfields q = fs \<and>
     (pstate q = IN_FIELD \<or> pstate q = QUOTE_IN_QUOTED_FIELD \<or>
      (s = [] \<and> pstate q = pstate p))"

section \<open>Properties of the library functions\<close>

subsection \<open>The calendar\<close>







lemma strptime_error: "strptime s = Inl exc \<Longrightarrow> exc = ValueError"
  by (auto simp: strptime_def new_datetime_def split: option.splits prod.splits if_splits)


lemma month_cases:
  assumes "1 \<le> (m::int)" "m \<le> 12"
  shows "m = 1 \<or> m = 2 \<or> m = 3 \<or> m = 4 \<or> m = 5 \<or> m = 6 \<or> m = 7 \<or> m = 8 \<or> m = 9 \<or> m = 10 \<or> m = 11 \<or> m = 12"
  using assms by arith







lemma py_truediv_mean:
  "xs \<noteq> [] \<Longrightarrow> py_truediv (py_sum xs) (int (length xs)) = Inr (arith_mean xs)"
  by (cases "py_sum xs") (simp_all add: py_truediv_def arith_mean_def)






lemma dt_sub_days_overflow:
  "toordinal d \<le> k \<Longrightarrow> dt_sub_days d k = Inl OverflowError"
  by (simp add: dt_sub_days_def Let_def)






subsection \<open>\<^verbatim>\<open>summarize_week\<close>, step by step\<close>









subsection \<open>\<^verbatim>\<open>moving_average\<close>, step by step\<close>

lemma py_slice_window:
  assumes "i < length xs" "1 \<le> w" "w \<le> int i + 1"
  shows "py_slice xs (int i - w + 1) (int i + 1) = window_at w xs i"
proof -
  have lo: "slice_bound (int (length xs)) (int i - w + 1) = Suc i - nat w"
    using assms by (simp add: slice_bound_def min_def)
  have hi: "slice_bound (int (length xs)) (int i + 1) = Suc i"
    using assms by (simp add: slice_bound_def min_def)
  have "take (Suc i - (Suc i - nat w)) (drop (Suc i - nat w) xs) = window_at w xs i"
    unfolding window_at_def using assms
    by (intro nth_equalityI) (auto simp del: upt_Suc)
  then show ?thesis by (simp add: py_slice_def lo hi Let_def)
qed

lemma length_window_at: "1 \<le> w \<Longrightarrow> w \<le> int i + 1 \<Longrightarrow> length (window_at w xs i) = nat w"
  by (simp add: window_at_def)

lemma window_at_map: "i < length xs \<Longrightarrow> window_at w (map f xs) i = map f (window_at w xs i)"
  by (auto simp: window_at_def)

lemma ma_loop_fold:
  assumes "1 \<le> w" "\<forall>i\<in>set idx. i < length numbers"
  shows "ma_loop w numbers dates idx r =
         Inr (foldl (\<lambda>acc i. AList.update (dates ! i) (arith_mean (window_at w numbers i)) acc) r
                (filter (\<lambda>i. w \<le> int i + 1) idx))"
  using assms(2)
proof (induction idx arbitrary: r)
  case Nil
  show ?case by simp
next
  case (Cons i idx)
  show ?case
  proof (cases "w \<le> int i + 1")
    case False
    with Cons show ?thesis by simp
  next
    case True
    from Cons.prems have i: "i < length numbers" by simp
    have sl: "py_slice numbers (int i - w + 1) (int i + 1) = window_at w numbers i"
      by (rule py_slice_window[OF i assms(1) True])
    have ne: "window_at w numbers i \<noteq> []"
      using length_window_at[OF assms(1) True, of numbers] assms(1) by auto
    from True Cons show ?thesis
      by (simp add: sl py_truediv_mean[OF ne] Let_def)
  qed
qed

lemma map_of_foldl_update:
  "map_of (foldl (\<lambda>acc i. AList.update (k i) (v i) acc) r idx) d =
     (if \<exists>i\<in>set idx. k i = d then Some (v (last (filter (\<lambda>i. k i = d) idx))) else map_of r d)"
proof (induction idx rule: rev_induct)
  case Nil
  show ?case by simp
next
  case (snoc x idx)
  show ?case
  proof (cases "k x = d")
    case True
    then show ?thesis by (simp add: update_conv')
  next
    case False
    with snoc show ?thesis by (simp add: update_conv')
  qed
qed


lemma last_filter_upt:
  assumes "i < n" "Q i" "\<forall>j<n. i < j \<longrightarrow> \<not> Q j"
  shows "last (filter Q [0..<n]) = i"
proof -
  have "[0..<i + (n - i)] = [0..<i] @ [i..<i + (n - i)]"
    by (rule upt_add_eq_append) simp
  then have "[0..<n] = [0..<i] @ i # [Suc i..<n]"
    using assms(1) by (simp add: upt_conv_Cons)
  moreover have "filter Q [Suc i..<n] = []"
    using assms(3) by (auto simp: filter_empty_conv)
  ultimately show ?thesis using assms(2) by simp
qed


lemma moving_average_fold:
  assumes "1 \<le> w"
  shows "moving_average entries m w =
     Inr (foldl (\<lambda>r i. AList.update (date (sort_key date (filter (\<lambda>e. metric e = lower (strip m)) entries) ! i))
                   (arith_mean (map val (window_at w (sort_key date (filter (\<lambda>e. metric e = lower (strip m)) entries)) i))) r)
            [] (filter (\<lambda>i. w \<le> int i + 1)
                  [0..<length (filter (\<lambda>e. metric e = lower (strip m)) entries)]))"
proof -
  define vals where "vals = sort_key date (filter (\<lambda>e. metric e = lower (strip m)) entries)"
  have len: "length (filter (\<lambda>e. metric e = lower (strip m)) entries) = length vals"
    by (simp add: vals_def)
  show ?thesis
  proof (cases "vals = []")
    case True
    with assms show ?thesis
      unfolding len vals_def[symmetric] by (simp add: moving_average_def vals_def[symmetric])
  next
    case False
    have "ma_loop w (map val vals) (map date vals) [0..<length (map val vals)] [] =
          Inr (foldl (\<lambda>acc i. AList.update (map date vals ! i)
                  (arith_mean (window_at w (map val vals) i)) acc) []
                (filter (\<lambda>i. w \<le> int i + 1) [0..<length (map val vals)]))"
      by (rule ma_loop_fold[OF assms]) simp
    also have "foldl (\<lambda>acc i. AList.update (map date vals ! i)
                  (arith_mean (window_at w (map val vals) i)) acc) []
                (filter (\<lambda>i. w \<le> int i + 1) [0..<length (map val vals)])
             = foldl (\<lambda>r i. AList.update (date (vals ! i))
                  (arith_mean (map val (window_at w vals i))) r) []
                (filter (\<lambda>i. w \<le> int i + 1) [0..<length vals])"
      by (rule foldl_cong) (auto simp: window_at_map)
    finally show ?thesis
      using False assms unfolding len vals_def[symmetric]
      by (simp add: moving_average_def vals_def[symmetric] Let_def)
  qed
qed


subsection \<open>\<^verbatim>\<open>add_entry\<close>: failure and the dates it admits\<close>

lemma add_entry_fails_iff:
  "fst (add_entry es d m v) = Inl ValueError \<longleftrightarrow> \<not> valid_date d \<or> isl (py_float v)"
  by (cases "strptime d"; cases "py_float v") (simp_all add: add_entry_def valid_date_def Let_def)

lemma add_entry_failure_unchanged:
  "isl (fst (add_entry es d m v)) \<Longrightarrow> snd (add_entry es d m v) = es"
  by (cases "strptime d"; cases "py_float v") (simp_all add: add_entry_def Let_def)

lemma add_entry_keeps_dates_valid:
  assumes "\<forall>e\<in>set es. valid_date (date e)"
  shows "\<forall>e\<in>set (snd (add_entry es d m v)). valid_date (date e)"
  using assms
  by (cases "strptime d"; cases "py_float v") (simp_all add: add_entry_def valid_date_def Let_def)

lemma iso_examples: "spec_iso_date ''2025-09-01''" "\<not> spec_iso_date ''2025-13-01''" "\<not> spec_iso_date ''2025-02-29''"
  by code_simp+

lemma unpadded_dates_sort_out_of_order:
  "date_ord \<lparr>date = ''2025-9-10'', metric = ''w'', val = Fin 1\<rparr>
     < date_ord \<lparr>date = ''2025-10-01'', metric = ''w'', val = Fin 3\<rparr> \<and>
   sort_key date [\<lparr>date = ''2025-9-10'', metric = ''w'', val = Fin 1\<rparr>,
                  \<lparr>date = ''2025-10-01'', metric = ''w'', val = Fin 3\<rparr>]
     = [\<lparr>date = ''2025-10-01'', metric = ''w'', val = Fin 3\<rparr>,
        \<lparr>date = ''2025-9-10'', metric = ''w'', val = Fin 1\<rparr>]"
  by code_simp

subsection \<open>Every date in the strict format is accepted\<close>

lemma digit_code_cases:
  fixes n :: nat
  assumes "48 \<le> n" "n \<le> 57"
  shows "n = 48 \<or> n = 49 \<or> n = 50 \<or> n = 51 \<or> n = 52 \<or> n = 53 \<or> n = 54 \<or> n = 55 \<or> n = 56 \<or> n = 57"
  using assms by arith

lemma char_eq_code: "c = d \<longleftrightarrow> (of_char c :: nat) = of_char d"
  by simp

lemma is_digit_cases:
  assumes "is_digit c"
  shows "c = CHR ''0'' \<or> c = CHR ''1'' \<or> c = CHR ''2'' \<or> c = CHR ''3'' \<or> c = CHR ''4'' \<or>
         c = CHR ''5'' \<or> c = CHR ''6'' \<or> c = CHR ''7'' \<or> c = CHR ''8'' \<or> c = CHR ''9''"
proof -
  have r: "48 \<le> (of_char c :: nat)" "(of_char c :: nat) \<le> 57"
    using assms by (simp_all add: is_digit_def in_range_def less_eq_char_def)
  from digit_code_cases[OF r] show ?thesis
    unfolding char_eq_code[of c] by simp
qed

lemma digit_val_le: "is_digit c \<Longrightarrow> digit_val c \<le> 9"
  using is_digit_cases[of c] by (auto simp: digit_val_def)

lemma digit_char_iff:
  assumes "is_digit c"
  shows "c = CHR ''0'' \<longleftrightarrow> digit_val c = 0" "c = CHR ''1'' \<longleftrightarrow> digit_val c = 1"
    "c = CHR ''3'' \<longleftrightarrow> digit_val c = 3" "c \<noteq> CHR ''-''" "c \<noteq> CHR '' ''"
  using is_digit_cases[OF assms] by (auto simp: digit_val_def)

lemma digit_range_iff:
  assumes "is_digit c"
  shows "in_range (CHR ''0'') (CHR ''2'') c \<longleftrightarrow> digit_val c \<le> 2"
    "in_range (CHR ''1'') (CHR ''9'') c \<longleftrightarrow> 1 \<le> digit_val c"
    "in_range (CHR ''0'') (CHR ''1'') c \<longleftrightarrow> digit_val c \<le> 1"
    "in_range (CHR ''1'') (CHR ''2'') c \<longleftrightarrow> 1 \<le> digit_val c \<and> digit_val c \<le> 2"
  using is_digit_cases[OF assms] by (auto simp: digit_val_def in_range_def)

lemma digits_val2: "digits_val [a, b] = 10 * digit_val a + digit_val b"
  by (simp add: digits_val_def)

lemma re_Y_digits:
  assumes "is_digit a" "is_digit b" "is_digit c" "is_digit d"
  shows "re_Y (a # b # c # d # r) = [([a, b, c, d], r)]"
  using assms by (simp add: re_Y_def seq_def)

lemma re_m_iso:
  assumes "is_digit a" "is_digit b" "1 \<le> digits_val [a, b]" "digits_val [a, b] \<le> 12"
  shows "\<exists>tl. re_m (a # b # CHR ''-'' # r) = ([a, b], CHR ''-'' # r) # tl \<and>
              (\<forall>x\<in>set tl. lit (CHR ''-'') (snd x) = [])"
proof -
  from assms(3,4) digit_val_le[OF assms(2)]
  consider "digit_val a = 0" "1 \<le> digit_val b" | "digit_val a = 1" "digit_val b \<le> 2"
    unfolding digits_val2 by (cases "digit_val a = 0") auto
  then show ?thesis
  proof cases
    case 1
    then show ?thesis
      by (simp add: re_m_def alt_def seq_def lit_def digit_char_iff[OF assms(1)]
          digit_range_iff[OF assms(1)] digit_range_iff[OF assms(2)])
  next
    case 2
    then show ?thesis
      by (simp add: re_m_def alt_def seq_def lit_def digit_char_iff[OF assms(1)]
          digit_char_iff[OF assms(2)] digit_range_iff[OF assms(1)] digit_range_iff[OF assms(2)])
  qed
qed

lemma re_d_iso:
  assumes "is_digit a" "is_digit b" "1 \<le> digits_val [a, b]" "digits_val [a, b] \<le> 31"
  shows "\<exists>tl. re_d [a, b] = ([a, b], []) # tl"
proof -
  from assms(3,4) digit_val_le[OF assms(2)]
  consider "digit_val a = 0" "1 \<le> digit_val b" | "1 \<le> digit_val a" "digit_val a \<le> 2"
    | "digit_val a = 3" "digit_val b \<le> 1"
    unfolding digits_val2 by (cases "digit_val a = 0"; cases "digit_val a \<le> 2") auto
  then show ?thesis
  proof cases
    case 1
    then show ?thesis
      by (simp add: re_d_def alt_def seq_def lit_def assms(2) digit_char_iff[OF assms(1)]
          digit_range_iff[OF assms(1)] digit_range_iff[OF assms(2)])
  next
    case 2
    then show ?thesis
      by (simp add: re_d_def alt_def seq_def lit_def assms(2) digit_char_iff[OF assms(1)]
          digit_range_iff[OF assms(1)] digit_range_iff[OF assms(2)])
  next
    case 3
    then show ?thesis
      by (simp add: re_d_def alt_def seq_def lit_def assms(2) digit_char_iff[OF assms(1)]
          digit_range_iff[OF assms(1)] digit_range_iff[OF assms(2)])
  qed
qed


lemma digit_not_space: "is_digit c \<Longrightarrow> \<not> is_space c"
  using is_digit_cases[of c] by (auto simp: is_space_def in_range_def)

lemma py_int_digits2:
  assumes "is_digit a" "is_digit b"
  shows "py_int [a, b] = int (digits_val [a, b])"
  using digit_not_space[OF assms(1)] digit_not_space[OF assms(2)]
  by (simp add: py_int_def strip_def)

lemma py_int_digits4:
  assumes "is_digit a" "is_digit d"
  shows "py_int [a, b, c, d] = int (digits_val [a, b, c, d])"
  using digit_not_space[OF assms(1)] digit_not_space[OF assms(2)]
  by (simp add: py_int_def strip_def)

lemma digits_val4_le:
  assumes "is_digit a" "is_digit b" "is_digit c" "is_digit d"
  shows "digits_val [a, b, c, d] \<le> 9999"
  using digit_val_le[OF assms(1)] digit_val_le[OF assms(2)] digit_val_le[OF assms(3)]
    digit_val_le[OF assms(4)]
  by (simp add: digits_val_def)

lemma days_in_month_le: "1 \<le> m \<Longrightarrow> m \<le> 12 \<Longrightarrow> days_in_month y m \<le> 31"
  using month_cases[of m]
  by (auto simp: days_in_month_def DAYS_IN_MONTH_def)

lemma format_regex_match_iso:
  assumes d: "is_digit y1" "is_digit y2" "is_digit y3" "is_digit y4"
      "is_digit m1" "is_digit m2" "is_digit d1" "is_digit d2"
    and m: "1 \<le> digits_val [m1, m2]" "digits_val [m1, m2] \<le> 12"
    and dd: "1 \<le> digits_val [d1, d2]" "digits_val [d1, d2] \<le> 31"
  shows "format_regex_match [y1, y2, y3, y4, CHR ''-'', m1, m2, CHR ''-'', d1, d2]
         = Some (([y1, y2, y3, y4], [m1, m2], [d1, d2]), [])"
proof -
  from re_m_iso[OF d(5,6) m, of "[d1, d2]"] obtain tl where
    tl: "re_m [m1, m2, CHR ''-'', d1, d2] = ([m1, m2], [CHR ''-'', d1, d2]) # tl"
        "\<forall>x\<in>set tl. lit (CHR ''-'') (snd x) = []" by blast
  from re_d_iso[OF d(7,8) dd] obtain tl' where tl': "re_d [d1, d2] = ([d1, d2], []) # tl'" by blast
  show ?thesis
    by (simp add: format_regex_match_def re_Y_digits[OF d(1-4)] lit_def tl(1) tl')
qed

lemma spec_iso_date_valid:
  assumes "spec_iso_date s"
  shows "valid_date s"
proof -
  from assms obtain y1 y2 y3 y4 m1 m2 d1 d2 where
    s: "s = [y1, y2, y3, y4, CHR ''-'', m1, m2, CHR ''-'', d1, d2]"
    and d: "is_digit y1" "is_digit y2" "is_digit y3" "is_digit y4"
      "is_digit m1" "is_digit m2" "is_digit d1" "is_digit d2"
    and y: "1 \<le> int (digits_val [y1, y2, y3, y4])"
    and m: "1 \<le> int (digits_val [m1, m2])" "int (digits_val [m1, m2]) \<le> 12"
    and dd: "1 \<le> int (digits_val [d1, d2])"
      "int (digits_val [d1, d2]) \<le> days_in_month (int (digits_val [y1, y2, y3, y4])) (int (digits_val [m1, m2]))"
    by (auto simp: spec_iso_date_def Let_def split: list.splits)
  have d31: "int (digits_val [d1, d2]) \<le> 31"
    using days_in_month_le[OF m, of "int (digits_val [y1, y2, y3, y4])"] dd(2) by linarith
  have f: "format_regex_match s = Some (([y1, y2, y3, y4], [m1, m2], [d1, d2]), [])"
    unfolding s using m dd(1) d31 by (intro format_regex_match_iso d) simp_all
  have y9: "int (digits_val [y1, y2, y3, y4]) \<le> 9999"
    using digits_val4_le[OF d(1-4)] by simp
  show ?thesis
    using y y9 m dd
    by (simp add: valid_date_def strptime_def f new_datetime_def
        py_int_digits4[OF d(1,4)] py_int_digits2[OF d(5,6)] py_int_digits2[OF d(7,8)])
qed

subsection \<open>Reading back what the \<^verbatim>\<open>csv\<close> writer wrote\<close>

lemma chars_distinct [simp]:
  "LF \<noteq> CR" "CR \<noteq> LF" "LF \<noteq> QUOTE" "QUOTE \<noteq> LF" "LF \<noteq> COMMA" "COMMA \<noteq> LF"
  "CR \<noteq> QUOTE" "QUOTE \<noteq> CR" "CR \<noteq> COMMA" "COMMA \<noteq> CR" "QUOTE \<noteq> COMMA" "COMMA \<noteq> QUOTE"
  by (simp_all add: LF_def CR_def QUOTE_def COMMA_def)

lemma pstate_same: "pstate p = x \<Longrightarrow> p\<lparr>pstate := x\<rparr> = p"
  by (cases p) simp

lemma not_needs_quote:
  assumes "\<not> list_ex needs_quote (c # s)"
  shows "c \<noteq> COMMA" "c \<noteq> QUOTE" "c \<noteq> CR" "c \<noteq> LF" "\<not> list_ex needs_quote s"
proof -
  from assms have n: "\<not> needs_quote c" and s: "\<not> list_ex needs_quote s" by simp_all
  from n show "c \<noteq> COMMA" "c \<noteq> QUOTE" "c \<noteq> CR" "c \<noteq> LF" by (simp_all add: needs_quote_def)
  from s show "\<not> list_ex needs_quote s" .
qed

lemma line_ends_here_False: "c \<noteq> LF \<Longrightarrow> c \<noteq> CR \<Longrightarrow> cs \<noteq> [] \<Longrightarrow> \<not> line_ends_here c cs"
  by (simp add: line_ends_here_def)

lemma read_step:
  assumes "parse_process_char p c = Inr p'" "\<not> line_ends_here c cs"
  shows "read_chars p rows (c # cs) = read_chars p' rows cs"
  using assms by simp

lemma read_step_quoted_eol:
  assumes "parse_process_char p c = Inr p'" "pstate p' = IN_QUOTED_FIELD"
  shows "read_chars p rows (c # cs) = read_chars p' rows cs"
  using assms by (simp add: parse_process_eol_def Let_def)

lemma read_quoted_char:
  assumes "pstate p = IN_QUOTED_FIELD" "c \<noteq> QUOTE"
  shows "read_chars p rows (c # cs) = read_chars (parse_add_char p c) rows cs"
  by (rule read_step_quoted_eol)
     (use assms in \<open>simp_all add: parse_process_char_def parse_add_char_def\<close>)

lemma read_quoted_quote:
  assumes "pstate p = IN_QUOTED_FIELD" "cs \<noteq> []"
  shows "read_chars p rows (QUOTE # QUOTE # cs) = read_chars (parse_add_char p QUOTE) rows cs"
proof -
  have e: "(parse_add_char p QUOTE)\<lparr>pstate := IN_QUOTED_FIELD\<rparr> = parse_add_char p QUOTE"
    using assms(1) by (cases p) (simp add: parse_add_char_def)
  have 1: "read_chars p rows (QUOTE # QUOTE # cs) =
           read_chars (p\<lparr>pstate := QUOTE_IN_QUOTED_FIELD\<rparr>) rows (QUOTE # cs)"
    by (rule read_step) (use assms in \<open>simp_all add: parse_process_char_def line_ends_here_def\<close>)
  have 2: "read_chars (p\<lparr>pstate := QUOTE_IN_QUOTED_FIELD\<rparr>) rows (QUOTE # cs) =
           read_chars ((parse_add_char p QUOTE)\<lparr>pstate := IN_QUOTED_FIELD\<rparr>) rows cs"
    by (rule read_step)
       (use assms in \<open>simp_all add: parse_process_char_def line_ends_here_def parse_add_char_def\<close>)
  show ?thesis unfolding 1 2 e ..
qed

lemma read_in_field_char:
  assumes "pstate p = IN_FIELD" "c \<noteq> COMMA" "c \<noteq> CR" "c \<noteq> LF" "cs \<noteq> []"
  shows "read_chars p rows (c # cs) = read_chars (parse_add_char p c) rows cs"
  by (rule read_step)
     (use assms in \<open>simp_all add: parse_process_char_def is_newline_def line_ends_here_False\<close>)

lemma read_start_char:
  assumes "pstate p = START_RECORD \<or> pstate p = START_FIELD"
    "c \<noteq> COMMA" "c \<noteq> QUOTE" "c \<noteq> CR" "c \<noteq> LF" "cs \<noteq> []"
  shows "read_chars p rows (c # cs) = read_chars ((parse_add_char p c)\<lparr>pstate := IN_FIELD\<rparr>) rows cs"
  by (rule read_step)
     (use assms in \<open>auto simp: parse_process_char_def start_field_def is_newline_def line_ends_here_False\<close>)

lemma read_start_quote:
  assumes "pstate p = START_RECORD \<or> pstate p = START_FIELD" "cs \<noteq> []"
  shows "read_chars p rows (QUOTE # cs) = read_chars (p\<lparr>pstate := IN_QUOTED_FIELD\<rparr>) rows cs"
  by (rule read_step)
     (use assms in \<open>auto simp: parse_process_char_def start_field_def is_newline_def line_ends_here_False\<close>)

lemma read_quoted_body:
  assumes "pstate p = IN_QUOTED_FIELD" "rest \<noteq> []"
  shows "read_chars p rows (join_append_data s @ QUOTE # rest) =
         read_chars (p\<lparr>pstate := QUOTE_IN_QUOTED_FIELD, pfield := pfield p @ s\<rparr>) rows rest"
  using assms(1)
proof (induction s arbitrary: p)
  case Nil
  have "read_chars p rows (QUOTE # rest) = read_chars (p\<lparr>pstate := QUOTE_IN_QUOTED_FIELD\<rparr>) rows rest"
    by (rule read_step)
       (use Nil assms(2) in \<open>simp_all add: parse_process_char_def line_ends_here_False\<close>)
  then show ?case by simp
next
  case (Cons c s)
  have st: "pstate (parse_add_char p c) = IN_QUOTED_FIELD"
    using Cons.prems by (simp add: parse_add_char_def)
  have "read_chars p rows (join_append_data (c # s) @ QUOTE # rest) =
        read_chars (parse_add_char p c) rows (join_append_data s @ QUOTE # rest)"
  proof (cases "c = QUOTE")
    case True
    then show ?thesis using read_quoted_quote[OF Cons.prems, of "join_append_data s @ QUOTE # rest" rows]
      by simp
  next
    case False
    then show ?thesis using read_quoted_char[OF Cons.prems False, of rows "join_append_data s @ QUOTE # rest"]
      by simp
  qed
  also have "\<dots> = read_chars ((parse_add_char p c)\<lparr>pstate := QUOTE_IN_QUOTED_FIELD,
                        pfield := pfield (parse_add_char p c) @ s\<rparr>) rows rest"
    by (rule Cons.IH[OF st])
  finally show ?case by (simp add: parse_add_char_def)
qed

lemma read_in_field_body:
  assumes "pstate p = IN_FIELD" "\<not> list_ex needs_quote s" "rest \<noteq> []"
  shows "read_chars p rows (s @ rest) = read_chars (p\<lparr>pfield := pfield p @ s\<rparr>) rows rest"
  using assms(1,2)
proof (induction s arbitrary: p)
  case Nil
  show ?case by simp
next
  case (Cons c s)
  note c = not_needs_quote(1-4)[OF Cons.prems(2)] and s = not_needs_quote(5)[OF Cons.prems(2)]
  have ne: "s @ rest \<noteq> []" using assms(3) by simp
  have st: "pstate (parse_add_char p c) = IN_FIELD"
    using Cons.prems by (simp add: parse_add_char_def)
  have "read_chars p rows ((c # s) @ rest) = read_chars (parse_add_char p c) rows (s @ rest)"
    using read_in_field_char[OF Cons.prems(1) c(1,3,4) ne] by simp
  also have "\<dots> = read_chars ((parse_add_char p c)\<lparr>pfield := pfield (parse_add_char p c) @ s\<rparr>) rows rest"
    by (rule Cons.IH[OF st s])
  finally show ?case by (simp add: parse_add_char_def)
qed

lemma read_field:
  assumes "pstate p = START_RECORD \<or> pstate p = START_FIELD" "pfield p = []" "rest \<noteq> []"
  shows "\<exists>q. read_chars p rows (join_append s @ rest) = read_chars q rows rest \<and>
             field_read p (pfields p) s q"
proof (cases "list_ex needs_quote s")
  case True
  define p1 where "p1 = p\<lparr>pstate := IN_QUOTED_FIELD\<rparr>"
  have ne: "join_append_data s @ QUOTE # rest \<noteq> []" by simp
  have "read_chars p rows (QUOTE # join_append_data s @ QUOTE # rest) =
        read_chars p1 rows (join_append_data s @ QUOTE # rest)"
    unfolding p1_def by (rule read_start_quote[OF assms(1) ne])
  also have "\<dots> = read_chars (p1\<lparr>pstate := QUOTE_IN_QUOTED_FIELD, pfield := pfield p1 @ s\<rparr>) rows rest"
    by (rule read_quoted_body[OF _ assms(3)]) (simp add: p1_def)
  finally show ?thesis
    using True assms(2) by (intro exI[of _ "p1\<lparr>pstate := QUOTE_IN_QUOTED_FIELD, pfield := pfield p1 @ s\<rparr>"])
      (simp add: join_append_def field_read_def p1_def)
next
  case False
  show ?thesis
  proof (cases s)
    case Nil
    with False show ?thesis
      using assms(2) by (intro exI[of _ p]) (simp add: join_append_def field_read_def)
  next
    case (Cons c t)
    from False Cons have nq: "\<not> list_ex needs_quote (c # t)" by simp
    note c = not_needs_quote(1-4)[OF nq] and t = not_needs_quote(5)[OF nq]
    define p1 where "p1 = (parse_add_char p c)\<lparr>pstate := IN_FIELD\<rparr>"
    have ne: "t @ rest \<noteq> []" using assms(3) by simp
    have "read_chars p rows ((c # t) @ rest) = read_chars p1 rows (t @ rest)"
      unfolding p1_def using read_start_char[OF assms(1) c ne] by simp
    also have "\<dots> = read_chars (p1\<lparr>pfield := pfield p1 @ t\<rparr>) rows rest"
      by (rule read_in_field_body[OF _ t assms(3)]) (simp add: p1_def)
    finally show ?thesis
      using False Cons assms(2) by (intro exI[of _ "p1\<lparr>pfield := pfield p1 @ t\<rparr>"])
        (simp add: join_append_def field_read_def p1_def parse_add_char_def)
  qed
qed

lemma read_delimiter:
  assumes "field_read p fs s q" "pstate p = START_RECORD \<or> pstate p = START_FIELD" "rest \<noteq> []"
  shows "read_chars q rows (COMMA # rest) =
         read_chars \<lparr>pstate = START_FIELD, pfield = [], pfields = fs @ [s]\<rparr> rows rest"
proof -
  from assms(1,2) have st: "pstate q = IN_FIELD \<or> pstate q = QUOTE_IN_QUOTED_FIELD \<or>
      pstate q = START_RECORD \<or> pstate q = START_FIELD"
    and f: "pfield q = s" "pfields q = fs" by (auto simp: field_read_def)
  have "(parse_save_field q)\<lparr>pstate := START_FIELD\<rparr> = \<lparr>pstate = START_FIELD, pfield = [], pfields = fs @ [s]\<rparr>"
    using f by (simp add: parse_save_field_def)
  with st assms(3) show ?thesis
    by (auto simp: parse_process_char_def start_field_def is_newline_def line_ends_here_def)
qed

lemma read_terminator:
  assumes "field_read p fs s q" "pstate p = START_FIELD \<or> s \<noteq> []"
  shows "read_chars q rows (CR # LF # rest) = read_chars parse_reset (rows @ [fs @ [s]]) rest"
proof -
  from assms have st: "pstate q = IN_FIELD \<or> pstate q = QUOTE_IN_QUOTED_FIELD \<or> pstate q = START_FIELD"
    and f: "pfield q = s" "pfields q = fs" by (auto simp: field_read_def)
  from st f show ?thesis
    by (auto simp: parse_process_char_def parse_process_eol_def start_field_def is_newline_def
        line_ends_here_def parse_save_field_def Let_def)
qed


lemma read_fields:
  assumes "pstate p = START_FIELD" "pfield p = []"
  shows "read_chars p rows (join_fields (f # fs) @ CR # LF # rest) =
         read_chars parse_reset (rows @ [pfields p @ f # fs]) rest"
  using assms
proof (induction fs arbitrary: f p)
  case Nil
  from read_field[of p "CR # LF # rest" rows f] Nil obtain q where
    q: "read_chars p rows (join_append f @ CR # LF # rest) = read_chars q rows (CR # LF # rest)"
       "field_read p (pfields p) f q" by auto
  from read_terminator[OF q(2), of rows rest] Nil.prems(1) q(1) show ?case by simp
next
  case (Cons g gs)
  from read_field[of p "COMMA # join_fields (g # gs) @ CR # LF # rest" rows f] Cons.prems obtain q where
    q: "read_chars p rows (join_append f @ COMMA # join_fields (g # gs) @ CR # LF # rest)
          = read_chars q rows (COMMA # join_fields (g # gs) @ CR # LF # rest)"
       "field_read p (pfields p) f q" by auto
  have ne: "join_fields (g # gs) @ CR # LF # rest \<noteq> []" by simp
  have d: "read_chars q rows (COMMA # join_fields (g # gs) @ CR # LF # rest) =
           read_chars \<lparr>pstate = START_FIELD, pfield = [], pfields = pfields p @ [f]\<rparr> rows
             (join_fields (g # gs) @ CR # LF # rest)"
    using Cons.prems(1) by (intro read_delimiter[OF q(2) _ ne]) simp
  have "read_chars \<lparr>pstate = START_FIELD, pfield = [], pfields = pfields p @ [f]\<rparr> rows
             (join_fields (g # gs) @ CR # LF # rest)
        = read_chars parse_reset (rows @ [(pfields p @ [f]) @ g # gs]) rest"
    using Cons.IH[of "\<lparr>pstate = START_FIELD, pfield = [], pfields = pfields p @ [f]\<rparr>" g] by simp
  with q(1) d show ?case by simp
qed

lemma read_row:
  assumes "r \<noteq> []"
  shows "read_chars parse_reset rows (csv_writerow r @ rest) = read_chars parse_reset (rows @ [r]) rest"
proof -
  have st: "pstate parse_reset = START_RECORD \<or> pstate parse_reset = START_FIELD"
    and fl: "pfield parse_reset = []" and fs0: "pfields parse_reset = []"
    by (simp_all add: parse_reset_def)
  from assms obtain f fs where r: "r = f # fs" by (cases r) auto
  show ?thesis
  proof (cases fs)
    case Nil
    show ?thesis
    proof (cases "f = []")
      case True
      define p0 where "p0 = \<lparr>pstate = START_FIELD, pfield = [], pfields = []\<rparr>"
      define q where "q = parse_reset\<lparr>pstate := QUOTE_IN_QUOTED_FIELD\<rparr>"
      have ne: "QUOTE # CR # LF # rest \<noteq> []" "CR # LF # rest \<noteq> []" by simp_all
      have 1: "read_chars parse_reset rows (QUOTE # QUOTE # CR # LF # rest) =
               read_chars (parse_reset\<lparr>pstate := IN_QUOTED_FIELD\<rparr>) rows (QUOTE # CR # LF # rest)"
        by (rule read_start_quote[OF st ne(1)])
      have 2: "read_chars (parse_reset\<lparr>pstate := IN_QUOTED_FIELD\<rparr>) rows (QUOTE # CR # LF # rest) =
               read_chars q rows (CR # LF # rest)"
        using read_quoted_body[of "parse_reset\<lparr>pstate := IN_QUOTED_FIELD\<rparr>" "CR # LF # rest" rows "[]"]
        by (simp add: q_def parse_reset_def)
      have fr: "field_read p0 [] [] q"
        by (simp add: field_read_def q_def parse_reset_def)
      have 3: "read_chars q rows (CR # LF # rest) = read_chars parse_reset (rows @ [[] @ [[]]]) rest"
        by (rule read_terminator[OF fr]) (simp add: p0_def)
      show ?thesis using 1 2 3 True Nil r by (simp add: csv_writerow_def)
    next
      case False
      from read_field[OF st fl, of "CR # LF # rest" rows f] obtain q where
        q: "read_chars parse_reset rows (join_append f @ CR # LF # rest) = read_chars q rows (CR # LF # rest)"
           "field_read parse_reset (pfields parse_reset) f q" by auto
      from read_terminator[OF q(2), of rows rest] False q(1) Nil r fs0
      show ?thesis by (simp add: csv_writerow_def)
    qed
  next
    case (Cons g gs)
    have w: "csv_writerow r @ rest = join_append f @ COMMA # join_fields (g # gs) @ CR # LF # rest"
      by (simp add: csv_writerow_def r Cons)
    from read_field[OF st fl, of "COMMA # join_fields (g # gs) @ CR # LF # rest" rows f] obtain q where
      q: "read_chars parse_reset rows (join_append f @ COMMA # join_fields (g # gs) @ CR # LF # rest)
            = read_chars q rows (COMMA # join_fields (g # gs) @ CR # LF # rest)"
         "field_read parse_reset (pfields parse_reset) f q" by auto
    have ne: "join_fields (g # gs) @ CR # LF # rest \<noteq> []" by simp
    have d: "read_chars q rows (COMMA # join_fields (g # gs) @ CR # LF # rest) =
             read_chars \<lparr>pstate = START_FIELD, pfield = [], pfields = pfields parse_reset @ [f]\<rparr> rows
               (join_fields (g # gs) @ CR # LF # rest)"
      by (rule read_delimiter[OF q(2) st ne])
    have "read_chars \<lparr>pstate = START_FIELD, pfield = [], pfields = pfields parse_reset @ [f]\<rparr> rows
               (join_fields (g # gs) @ CR # LF # rest)
          = read_chars parse_reset (rows @ [(pfields parse_reset @ [f]) @ g # gs]) rest"
      using read_fields[of "\<lparr>pstate = START_FIELD, pfield = [], pfields = pfields parse_reset @ [f]\<rparr>" rows g gs rest]
      by simp
    with q(1) d show ?thesis unfolding w by (simp add: fs0 r Cons)
  qed
qed

lemma read_rows:
  assumes "\<forall>r\<in>set rs. r \<noteq> []"
  shows "read_chars parse_reset rows (concat (map csv_writerow rs)) = Inr (rows @ rs)"
  using assms
proof (induction rs arbitrary: rows)
  case Nil
  show ?case by (simp add: parse_reset_def)
next
  case (Cons r rs)
  from Cons.prems have r: "r \<noteq> []" and rs: "\<forall>r\<in>set rs. r \<noteq> []" by simp_all
  from read_row[OF r, of rows "concat (map csv_writerow rs)"] Cons.IH[OF rs, of "rows @ [r]"]
  show ?case by simp
qed

lemma write_entries_concat:
  "write_entries float_str fh es =
   fh @ concat (map (\<lambda>e. csv_writerow [date e, metric e, float_str (val e)]) es)"
  by (induction es arbitrary: fh)
     (simp_all add: dictwriter_writerow_def dict_to_list_def fieldnames_def cell_text_def)

section \<open>The claims\<close>

subsection \<open>\<^verbatim>\<open>summarize_week\<close> on an empty collection\<close>

text \<open>
  Claim C10. When the collection is empty, \<^verbatim>\<open>summarize_week\<close> returns
  \<^verbatim>\<open>{count: 0, values: []}\<close> before it looks at \<^verbatim>\<open>end_date\<close>: for every metric and
  every \<^verbatim>\<open>end_date\<close>, absent, valid or not a date at all, the call succeeds with the
  zero-count result.
\<close>

theorem summarize_week_empty_collection:
  "summarize_week [] m end_date = Inr [(''count'', VInt 0), (''values'', VList [])]"
  by (simp add: summarize_week_def empty_summary_def)

theorem summarize_week_empty_collection_witness:
  "strptime ''31/12/2025'' = Inl ValueError \<and>
   summarize_week [] ''weight'' (Some ''31/12/2025'')
     = Inr [(''count'', VInt 0), (''values'', VList [])]"
proof -
  have "strptime ''31/12/2025'' = Inl ValueError" by code_simp
  then show ?thesis
    using summarize_week_empty_collection[of "''weight''" "Some ''31/12/2025''"] by simp
qed

text \<open>
  Claim C1, as stated, says that an \<^verbatim>\<open>end_date\<close> that does not parse makes
  \<^verbatim>\<open>summarize_week\<close> fail for every collection, and that an empty collection without
  \<^verbatim>\<open>end_date\<close> fails too. The guard \<^verbatim>\<open>if not entries\<close> returns first: on the empty
  collection neither call fails.
\<close>

theorem summarize_week_empty_no_failure:
  "\<not> valid_date ''31/12/2025'' \<and>
   summarize_week [] ''weight'' (Some ''31/12/2025'') \<noteq> Inl ValueError \<and>
   summarize_week [] ''weight'' None \<noteq> Inl ValueError"
proof -
  have "\<not> valid_date ''31/12/2025''" by code_simp
  then show ?thesis by (simp add: summarize_week_def)
qed

text \<open>
  Claim C1, amended. For every non-empty collection, every metric and every \<^verbatim>\<open>end_date\<close>
  string that does not parse, \<^verbatim>\<open>summarize_week\<close> fails with \<^verbatim>\<open>InvalidInput\<close>
  (\<^verbatim>\<open>ValueError\<close>); on an empty collection it returns the zero-count result, whether
  \<^verbatim>\<open>end_date\<close> is given or absent.
\<close>

theorem summarize_week_bad_end_date:
  "(entries \<noteq> [] \<and> \<not> valid_date s \<longrightarrow> summarize_week entries m (Some s) = Inl ValueError) \<and>
   summarize_week [] m (Some s) = Inr [(''count'', VInt 0), (''values'', VList [])] \<and>
   summarize_week [] m None = Inr [(''count'', VInt 0), (''values'', VList [])]"
proof -
  have "summarize_week entries m (Some s) = Inl ValueError" if "entries \<noteq> []" "\<not> valid_date s"
  proof -
    from that(2) obtain exc where "strptime s = Inl exc"
      by (cases "strptime s") (auto simp: valid_date_def)
    with strptime_error[of s exc] that(1) show ?thesis by (simp add: summarize_week_def)
  qed
  then show ?thesis by (simp add: summarize_week_def empty_summary_def)
qed

theorem summarize_week_bad_end_date_witness:
  "\<not> valid_date ''2025-13-01'' \<and>
   summarize_week [\<lparr>date = ''2025-09-08'', metric = ''weight'', val = Fin 70\<rparr>] ''weight''
     (Some ''2025-13-01'') = Inl ValueError"
proof -
  have h: "\<not> valid_date ''2025-13-01''" by code_simp
  with summarize_week_bad_end_date[of
      "[\<lparr>date = ''2025-09-08'', metric = ''weight'', val = Fin 70\<rparr>]" "''2025-13-01''" "''weight''"]
  show ?thesis by simp
qed

subsection \<open>\<^verbatim>\<open>moving_average\<close>: the window check\<close>

text \<open>
  Claim C9. For every collection and metric, \<^verbatim>\<open>moving_average\<close> fails with
  \<^verbatim>\<open>InvalidInput\<close> when the window is zero or negative. The outcome is the same for
  every collection: the check comes before the collection is read, and the function
  has no statement that writes to it.
\<close>

theorem moving_average_rejects_window:
  "window < 1 \<Longrightarrow> moving_average entries m window = Inl ValueError"
  by (simp add: moving_average_def)

theorem moving_average_rejects_window_witness:
  "moving_average [\<lparr>date = ''2025-09-01'', metric = ''weight'', val = Fin 70\<rparr>] ''weight'' 0
     = Inl ValueError \<and>
   moving_average [] ''weight'' (- 3) = Inl ValueError"
  using moving_average_rejects_window[of 0
      "[\<lparr>date = ''2025-09-01'', metric = ''weight'', val = Fin 70\<rparr>]" "''weight''"]
    moving_average_rejects_window[of "- 3" "[]" "''weight''"]
  by simp

subsection \<open>\<^verbatim>\<open>add_entry\<close>\<close>



subsection \<open>\<^verbatim>\<open>summarize_week\<close>: the window and the result\<close>




subsection \<open>\<^verbatim>\<open>summarize_week\<close>: the default end date\<close>



subsection \<open>\<^verbatim>\<open>moving_average\<close>: selection, order and windows\<close>



text \<open>
  Claim C5. The sort is stable: the entries of the selection that share a date keep
  their relative order, and the sorted list has as many positions as the selection.
  The value that the result holds for a date is the mean computed at the last position
  that carries that date (when that position has \<open>window\<close> values behind it), whatever
  was recorded for the same date at an earlier position; a date that no such position
  carries is absent from the result.
\<close>

theorem moving_average_duplicate_dates:
  assumes "1 \<le> window"
  shows "let sel = filter (\<lambda>e. metric e = lower (strip m)) entries;
             vals = sort_key date sel;
             avg = (\<lambda>i. arith_mean (map val (window_at window vals i)))
         in (\<forall>d. filter (\<lambda>e. date e = d) vals = filter (\<lambda>e. date e = d) sel) \<and>
            length vals = length sel \<and>
            (\<exists>r. moving_average entries m window = Inr r \<and>
               (\<forall>i<length vals. window \<le> int i + 1 \<longrightarrow>
                   (\<forall>j<length vals. i < j \<longrightarrow> date (vals ! j) \<noteq> date (vals ! i)) \<longrightarrow>
                   map_of r (date (vals ! i)) = Some (avg i)) \<and>
               (\<forall>d. (\<forall>i<length vals. window \<le> int i + 1 \<longrightarrow> date (vals ! i) \<noteq> d) \<longrightarrow>
                   map_of r d = None))"
proof -
  define sel where "sel = filter (\<lambda>e. metric e = lower (strip m)) entries"
  define vals where "vals = sort_key date sel"
  define eligible where "eligible = filter (\<lambda>i. window \<le> int i + 1) [0..<length vals]"
  let ?avg = "\<lambda>i. arith_mean (map val (window_at window vals i))"
  define r where "r = foldl (\<lambda>r i. AList.update (date (vals ! i)) (?avg i) r) [] eligible"
  have ma: "moving_average entries m window = Inr r"
    using moving_average_fold[OF assms, of entries m]
    by (simp add: sel_def vals_def eligible_def r_def)
  have look: "map_of r d =
      (if \<exists>i\<in>set eligible. date (vals ! i) = d
       then Some (?avg (last (filter (\<lambda>i. date (vals ! i) = d) eligible))) else None)" for d
    unfolding r_def by (simp add: map_of_foldl_update)
  have last_wins: "map_of r (date (vals ! i)) = Some (?avg i)"
    if i: "i < length vals" and el: "window \<le> int i + 1"
      and lst: "\<forall>j<length vals. i < j \<longrightarrow> date (vals ! j) \<noteq> date (vals ! i)" for i
  proof -
    have "last (filter (\<lambda>j. window \<le> int j + 1 \<and> date (vals ! j) = date (vals ! i)) [0..<length vals]) = i"
      using i el lst by (intro last_filter_upt) auto
    then have l: "last (filter (\<lambda>j. date (vals ! j) = date (vals ! i)) eligible) = i"
      by (simp add: eligible_def conj_commute)
    have "i \<in> set eligible" using i el by (simp add: eligible_def)
    then have "\<exists>j\<in>set eligible. date (vals ! j) = date (vals ! i)" by blast
    then show ?thesis unfolding look l by simp
  qed
  have absent: "map_of r d = None"
    if "\<forall>i<length vals. window \<le> int i + 1 \<longrightarrow> date (vals ! i) \<noteq> d" for d
  proof -
    have "\<not> (\<exists>i\<in>set eligible. date (vals ! i) = d)" using that by (auto simp: eligible_def)
    then show ?thesis unfolding look by simp
  qed
  have st: "\<forall>d. filter (\<lambda>e. date e = d) vals = filter (\<lambda>e. date e = d) sel"
    by (simp add: vals_def sort_key_stable)
  have ln: "length vals = length sel" by (simp add: vals_def)
  have ex: "\<exists>r. moving_average entries m window = Inr r \<and>
               (\<forall>i<length vals. window \<le> int i + 1 \<longrightarrow>
                   (\<forall>j<length vals. i < j \<longrightarrow> date (vals ! j) \<noteq> date (vals ! i)) \<longrightarrow>
                   map_of r (date (vals ! i)) = Some (?avg i)) \<and>
               (\<forall>d. (\<forall>i<length vals. window \<le> int i + 1 \<longrightarrow> date (vals ! i) \<noteq> d) \<longrightarrow>
                   map_of r d = None)"
  proof (intro exI[of _ r] conjI allI impI)
    show "moving_average entries m window = Inr r" by (rule ma)
  next
    fix i
    assume "i < length vals" "window \<le> int i + 1"
      "\<forall>j<length vals. i < j \<longrightarrow> date (vals ! j) \<noteq> date (vals ! i)"
    then show "map_of r (date (vals ! i)) = Some (?avg i)" by (rule last_wins)
  next
    fix d
    assume "\<forall>i<length vals. window \<le> int i + 1 \<longrightarrow> date (vals ! i) \<noteq> d"
    then show "map_of r d = None" by (rule absent)
  qed
  show ?thesis
    unfolding Let_def sel_def[symmetric] vals_def[symmetric]
    by (intro conjI) (rule st ln ex)+
qed

theorem moving_average_duplicate_dates_witness:
  "\<exists>r. moving_average
     [\<lparr>date = ''2025-09-02'', metric = ''weight'', val = Fin 4\<rparr>,
      \<lparr>date = ''2025-09-01'', metric = ''weight'', val = Fin 1\<rparr>,
      \<lparr>date = ''2025-09-02'', metric = ''weight'', val = Fin 10\<rparr>] ''weight'' 2 = Inr r \<and>
     map_of r ''2025-09-02'' = Some (Fin 7)"
proof -
  have w: "(1::int) \<le> 2" by simp
  have m: "lower (strip ''weight'') = ''weight''" by code_simp
  have sk: "sort_key date
     [\<lparr>date = ''2025-09-02'', metric = ''weight'', val = Fin 4\<rparr>,
      \<lparr>date = ''2025-09-01'', metric = ''weight'', val = Fin 1\<rparr>,
      \<lparr>date = ''2025-09-02'', metric = ''weight'', val = Fin 10\<rparr>]
    = [\<lparr>date = ''2025-09-01'', metric = ''weight'', val = Fin 1\<rparr>,
       \<lparr>date = ''2025-09-02'', metric = ''weight'', val = Fin 4\<rparr>,
       \<lparr>date = ''2025-09-02'', metric = ''weight'', val = Fin 10\<rparr>]"
    by code_simp
  have a: "arith_mean [Fin 4, Fin 10] = Fin 7"
    by (simp add: arith_mean_def py_sum_def)
  have wa: "window_at 2
      [\<lparr>date = ''2025-09-01'', metric = ''weight'', val = Fin 1\<rparr>,
       \<lparr>date = ''2025-09-02'', metric = ''weight'', val = Fin 4\<rparr>,
       \<lparr>date = ''2025-09-02'', metric = ''weight'', val = Fin 10\<rparr>] 2
    = [\<lparr>date = ''2025-09-02'', metric = ''weight'', val = Fin 4\<rparr>,
       \<lparr>date = ''2025-09-02'', metric = ''weight'', val = Fin 10\<rparr>]"
    by code_simp
  from moving_average_duplicate_dates[OF w, of "''weight''"
     "[\<lparr>date = ''2025-09-02'', metric = ''weight'', val = Fin 4\<rparr>,
      \<lparr>date = ''2025-09-01'', metric = ''weight'', val = Fin 1\<rparr>,
      \<lparr>date = ''2025-09-02'', metric = ''weight'', val = Fin 10\<rparr>]"]
  obtain r where r: "moving_average
     [\<lparr>date = ''2025-09-02'', metric = ''weight'', val = Fin 4\<rparr>,
      \<lparr>date = ''2025-09-01'', metric = ''weight'', val = Fin 1\<rparr>,
      \<lparr>date = ''2025-09-02'', metric = ''weight'', val = Fin 10\<rparr>] ''weight'' 2 = Inr r"
    and l: "\<forall>i<3. 2 \<le> int i + 1 \<longrightarrow>
       (\<forall>j<3. i < j \<longrightarrow>
          date ([\<lparr>date = ''2025-09-01'', metric = ''weight'', val = Fin 1\<rparr>,
       \<lparr>date = ''2025-09-02'', metric = ''weight'', val = Fin 4\<rparr>,
       \<lparr>date = ''2025-09-02'', metric = ''weight'', val = Fin 10\<rparr>] ! j) \<noteq>
          date ([\<lparr>date = ''2025-09-01'', metric = ''weight'', val = Fin 1\<rparr>,
       \<lparr>date = ''2025-09-02'', metric = ''weight'', val = Fin 4\<rparr>,
       \<lparr>date = ''2025-09-02'', metric = ''weight'', val = Fin 10\<rparr>] ! i)) \<longrightarrow>
       map_of r (date ([\<lparr>date = ''2025-09-01'', metric = ''weight'', val = Fin 1\<rparr>,
       \<lparr>date = ''2025-09-02'', metric = ''weight'', val = Fin 4\<rparr>,
       \<lparr>date = ''2025-09-02'', metric = ''weight'', val = Fin 10\<rparr>] ! i)) =
       Some (arith_mean (map val (window_at 2 [\<lparr>date = ''2025-09-01'', metric = ''weight'', val = Fin 1\<rparr>,
       \<lparr>date = ''2025-09-02'', metric = ''weight'', val = Fin 4\<rparr>,
       \<lparr>date = ''2025-09-02'', metric = ''weight'', val = Fin 10\<rparr>] i)))"
    unfolding Let_def m by (auto simp: sk)
  from l[rule_format, of 2] have "map_of r ''2025-09-02'' = Some (Fin 7)"
    by (simp add: wa a)
  with r show ?thesis by blast
qed

subsection \<open>\<^verbatim>\<open>add_entry\<close>: what it rejects\<close>

text \<open>
  Claim C6. \<^verbatim>\<open>add_entry\<close> fails exactly when the date is not in the format
  \<^verbatim>\<open>YYYY-MM-DD\<close> or the value is not numeric, and a failure leaves the collection as it
  was. The code fails exactly when \<^verbatim>\<open>strptime\<close> rejects the date or \<^verbatim>\<open>float\<close> rejects
  the value (\<open>add_entry_fails_iff\<close>), it accepts every date in the format
  (\<open>spec_iso_date_valid\<close>), and a failure leaves the collection unchanged
  (\<open>add_entry_failure_unchanged\<close>); but \<^verbatim>\<open>strptime\<close> also accepts a month or a day of
  one digit, and a day written as a blank and a digit. At the date \<^verbatim>\<open>2025-9-1\<close>, which
  is not in the format, the code appends the entry with the date string as given,
  against its own error message (``date must be in YYYY-MM-DD format'') and the comment
  on \<^verbatim>\<open>Entry.date\<close>; \<^verbatim>\<open>moving_average\<close> then sorts such strings out of calendar order
  (\<open>unpadded_dates_sort_out_of_order\<close>).
\<close>

theorem add_entry_accepts_unpadded_date:
  "\<not> spec_iso_date ''2025-9-1'' \<and>
   add_entry [] ''2025-9-1'' ''weight'' (PyInt 70)
     = (Inr \<lparr>date = ''2025-9-1'', metric = ''weight'', val = Fin 70\<rparr>,
        [\<lparr>date = ''2025-9-1'', metric = ''weight'', val = Fin 70\<rparr>])"
  by code_simp

subsection \<open>\<^verbatim>\<open>export_csv\<close>\<close>

text \<open>
  Claim C8. For every collection, when the file can be opened, \<^verbatim>\<open>export_csv\<close> leaves in
  it (and changes no other file) the header row \<^verbatim>\<open>date,metric,value\<close> followed by one
  row per entry in collection order; reading that text back with the reader of the
  \<^verbatim>\<open>csv\<close> module gives the header and then, entry by entry and in the same order, the
  date, the metric and the text of the value, whatever characters the strings hold and
  however floats are printed.
\<close>

theorem export_csv_round_trip:
  assumes "writable fs filename"
  shows "\<exists>fs' written. export_csv float_str entries filename fs = Inr fs' \<and>
           contents fs' filename = Some written \<and>
           (\<forall>f. f \<noteq> filename \<longrightarrow> contents fs' f = contents fs f) \<and>
           written = csv_writerow [''date'', ''metric'', ''value''] @
                  concat (map (\<lambda>e. csv_writerow [date e, metric e, float_str (val e)]) entries) \<and>
           csv_read written = Inr ([''date'', ''metric'', ''value''] #
                                 map (\<lambda>e. [date e, metric e, float_str (val e)]) entries)"
proof -
  define rows where "rows = [''date'', ''metric'', ''value''] #
                                 map (\<lambda>e. [date e, metric e, float_str (val e)]) entries"
  define written where "written = csv_writerow [''date'', ''metric'', ''value''] @
                  concat (map (\<lambda>e. csv_writerow [date e, metric e, float_str (val e)]) entries)"
  have t: "written = concat (map csv_writerow rows)"
    by (simp add: written_def rows_def comp_def)
  have "\<forall>r\<in>set rows. r \<noteq> []" by (auto simp: rows_def)
  from read_rows[OF this, of "[]"] have rd: "csv_read written = Inr rows"
    by (simp add: csv_read_def t)
  have w: "write_entries float_str writeheader entries = written"
    by (simp add: write_entries_concat writeheader_def fieldnames_def written_def)
  show ?thesis
    using assms rd
    by (intro exI[of _ "fs\<lparr>contents := (contents fs)(filename := Some written)\<rparr>"] exI[of _ written])
       (simp add: export_csv_def w written_def[symmetric] rows_def[symmetric])
qed

theorem export_csv_round_trip_witness:
  "\<exists>fs'. export_csv (\<lambda>x. if x = Fin 70 then ''70.0'' else ''nan'')
            [\<lparr>date = ''2025-09-01'', metric = ''weight'', val = Fin 70\<rparr>,
             \<lparr>date = ''2025-09-02'', metric = ''a,b'', val = NaN\<rparr>]
            ''health_entries.csv'' \<lparr>contents = \<lambda>f. None, writable = \<lambda>f. True\<rparr> = Inr fs' \<and>
         contents fs' ''health_entries.csv''
           = Some (''date,metric,value'' @ [CR, LF] @ ''2025-09-01,weight,70.0'' @ [CR, LF] @
                   ''2025-09-02,'' @ [QUOTE] @ ''a,b'' @ [QUOTE] @ '',nan'' @ [CR, LF]) \<and>
         csv_read (''date,metric,value'' @ [CR, LF] @ ''2025-09-01,weight,70.0'' @ [CR, LF] @
                   ''2025-09-02,'' @ [QUOTE] @ ''a,b'' @ [QUOTE] @ '',nan'' @ [CR, LF])
           = Inr [[''date'', ''metric'', ''value''], [''2025-09-01'', ''weight'', ''70.0''],
                  [''2025-09-02'', ''a,b'', ''nan'']]"
proof -
  have w: "writable \<lparr>contents = \<lambda>f. None, writable = \<lambda>f. True\<rparr> ''health_entries.csv''" by simp
  have r: "csv_writerow [''date'', ''metric'', ''value''] = ''date,metric,value'' @ [CR, LF]"
    "csv_writerow [''2025-09-01'', ''weight'', ''70.0''] = ''2025-09-01,weight,70.0'' @ [CR, LF]"
    "csv_writerow [''2025-09-02'', ''a,b'', ''nan'']
       = ''2025-09-02,'' @ [QUOTE] @ ''a,b'' @ [QUOTE] @ '',nan'' @ [CR, LF]"
    by (simp_all add: csv_writerow_def join_append_def needs_quote_def COMMA_def QUOTE_def CR_def LF_def)
  from export_csv_round_trip[OF w, of "\<lambda>x. if x = Fin 70 then ''70.0'' else ''nan''"
      "[\<lparr>date = ''2025-09-01'', metric = ''weight'', val = Fin 70\<rparr>,
        \<lparr>date = ''2025-09-02'', metric = ''a,b'', val = NaN\<rparr>]"]
  show ?thesis by (auto simp: r)
qed


end
